theory Spec2Isabelle
  imports Main "HOL-Library.Word"
begin

unbundle bit_operations_syntax

section \<open>The SPI back-ends of SdSpi.h\<close>

text \<open>
  SdSpi.h has three SPI back-ends for an SD card driver: \<open>SdSpi\<close> drives the AVR SPI
  registers directly, \<open>SdSpiLib\<close> calls the Arduino SPI library, \<open>SdSpiSoft\<close> calls a
  bit-banged SoftSPI object. The member functions are embedded as HOL functions on an
  explicit state; the overloads \<open>receive(buf, n)\<close> and \<open>send(buf, n)\<close> carry the
  suffix \<open>_n\<close>.
\<close>

type_synonym u8 = "8 word"

subsection \<open>Buffers\<close>

text \<open>
  A \<open>uint8_t*\<close> argument is the memory seen from the pointer: \<open>cells b i\<close> is \<open>buf[i]\<close>
  for every offset \<open>i\<close>, since C checks no bound. \<open>stored\<close> lists the offsets the
  function has assigned to, oldest first.
\<close>

record buffer =
  cells :: "nat \<Rightarrow> u8"
  stored :: "nat list"

definition store :: "buffer \<Rightarrow> nat \<Rightarrow> u8 \<Rightarrow> buffer" where
  "store b i v = b\<lparr>cells := (cells b)(i := v), stored := stored b @ [i]\<rparr>"

subsection \<open>The AVR SPI peripheral\<close>

text \<open>
  Bit numbers of the AVR headers (they are not part of SdSpi.h): \<open>SPE\<close> and \<open>MSTR\<close> in
  SPCR, \<open>SPI2X\<close> in SPSR. The flag \<open>SPIF\<close> of SPSR is the field \<open>spif\<close> below.
\<close>

definition SPE :: nat where "SPE = 6"
definition MSTR :: nat where "MSTR = 4"
definition SPI2X :: nat where "SPI2X = 0"

text \<open>
  The state the code can observe or change.
  \<^item> \<open>PORTB\<close>, \<open>DDRB\<close>: the port registers \<open>begin\<close> writes.
  \<^item> \<open>SPCR\<close>, \<open>SPSR\<close>: the control register and the writable part of the status
    register, as last written.
  \<^item> \<open>spif\<close>: the transfer-complete flag, read by \<open>SPSR & (1 << SPIF)\<close>.
  \<^item> \<open>armed\<close>: SPSR has been read with the flag set, so that the next access to SPDR
    clears the flag (the clearing sequence of the data sheet).
  \<^item> \<open>rx\<close>: the receive buffer, which a read of SPDR returns.
  \<^item> \<open>busy\<close>: the CPU cycles the transfer in flight still needs, 0 when the shifter
    is idle.
  \<^item> \<open>miso\<close>, \<open>xfers\<close>: \<open>miso k\<close> is the byte the slave shifts in during transfer
    number \<open>k\<close>; \<open>xfers\<close> counts the transfers completed.
  \<^item> \<open>mosi\<close>: the bytes shifted out on MOSI, oldest first.
  \<^item> \<open>dr_writes\<close>: every value written to SPDR, oldest first, also those lost to a
    write collision.
\<close>

record spi_hw =
  PORTB :: u8
  DDRB :: u8
  SPCR :: u8
  SPSR :: u8
  spif :: bool
  armed :: bool
  rx :: u8
  busy :: nat
  miso :: "nat \<Rightarrow> u8"
  xfers :: nat
  mosi :: "u8 list"
  dr_writes :: "u8 list"

text \<open>
  Modelled from the spec: the decoding of the three-bit clock-select field by the
  hardware, which is not in the source (\<open>See AVR processor documentation\<close>). The low two
  bits of SPCR select the divisors 4, 16, 64, 128 (the spec's values for r = 1, 3 and 7,
  and twice its values for r = 4 and 6); the bit SPI2X of SPSR doubles the clock.
\<close>

definition sck_divisor :: "spi_hw \<Rightarrow> nat" where
  "sck_divisor s =
     (let spr = SPCR s AND 3;
          base = (if spr = 0 then 4 else if spr = 1 then 16 else if spr = 2 then 64 else 128)
      in if bit (SPSR s) SPI2X then base div 2 else base)"

definition sck_hz :: "nat \<Rightarrow> spi_hw \<Rightarrow> nat" where
  "sck_hz f_cpu s = f_cpu div sck_divisor s"

text \<open>One byte is eight SCK periods.\<close>

definition byte_cycles :: "spi_hw \<Rightarrow> nat" where
  "byte_cycles s = 8 * sck_divisor s"

text \<open>The transfer in flight ends: the byte shifted in is latched and the flag is set.\<close>

definition complete :: "spi_hw \<Rightarrow> spi_hw" where
  "complete s = s\<lparr>spif := True, rx := miso s (xfers s), busy := 0, xfers := Suc (xfers s)\<rparr>"

text \<open>\<open>k\<close> CPU cycles pass.\<close>

definition tick :: "nat \<Rightarrow> spi_hw \<Rightarrow> spi_hw" where
  "tick k s =
     (if busy s = 0 then s
      else if k < busy s then s\<lparr>busy := busy s - k\<rparr>
      else complete s)"

definition clear_flag :: "spi_hw \<Rightarrow> spi_hw" where
  "clear_flag s = (if armed s then s\<lparr>spif := False, armed := False\<rparr> else s)"

text \<open>
  \<open>SPDR = v\<close>. A write while a byte is being shifted is a write collision: the hardware
  drops it. Otherwise the byte goes out on MOSI and the shifter is busy for one byte.
\<close>

definition write_SPDR :: "u8 \<Rightarrow> spi_hw \<Rightarrow> spi_hw" where
  "write_SPDR v s =
     (let s1 = (clear_flag s)\<lparr>dr_writes := dr_writes s @ [v]\<rparr>
      in if 0 < busy s1 then s1
         else s1\<lparr>busy := byte_cycles s1, mosi := mosi s1 @ [v]\<rparr>)"

text \<open>\<open>... = SPDR\<close>.\<close>

definition read_SPDR :: "spi_hw \<Rightarrow> u8 \<times> spi_hw" where
  "read_SPDR s = (rx s, clear_flag s)"

text \<open>
  \<open>while (!(SPSR & (1 << SPIF))) {}\<close>: every poll that finds the flag clear costs a
  cycle. \<open>None\<close> is the loop that never ends.
\<close>

partial_function (option) spin :: "spi_hw \<Rightarrow> spi_hw option" where
  "spin s = (if spif s then Some (s\<lparr>armed := True\<rparr>) else spin (tick 1 s))"

text \<open>
  The peripheral is at rest: no byte is being shifted, and a flag left set will be
  cleared by the next access to SPDR.
\<close>

definition idle :: "spi_hw \<Rightarrow> bool" where
  "idle s \<longleftrightarrow> busy s = 0 \<and> (spif s \<longrightarrow> armed s)"

text \<open>The registers after a reset of the processor, with the slave's bytes \<open>m\<close>.\<close>

definition reset_state :: "(nat \<Rightarrow> u8) \<Rightarrow> spi_hw" where
  "reset_state m =
     \<lparr>PORTB = 0, DDRB = 0, SPCR = 0, SPSR = 0, spif = False, armed = False, rx = 0,
      busy = 0, miso = m, xfers = 0, mosi = [], dr_writes = []\<rparr>"

text \<open>
  Two byte sequences for concrete runs: \<open>0xFF\<close> throughout, as on a MISO held high,
  and the bytes 0, 1, 2, ...
\<close>

definition ones :: "nat \<Rightarrow> u8" where
  "ones k = 0xFF"

definition ramp :: "nat \<Rightarrow> u8" where
  "ramp k = of_nat k"

subsection \<open>SdSpi: the register back-end\<close>

text \<open>\<open>SdSpi::begin\<close>, the ATmega328P branch.\<close>

definition SdSpi_begin :: "spi_hw \<Rightarrow> spi_hw" where
  "SdSpi_begin s =
     (let s1 = s\<lparr>PORTB := PORTB s OR push_bit 2 1\<rparr>;
          s2 = s1\<lparr>DDRB := DDRB s1 OR push_bit 2 1\<rparr>;
          s3 = s2\<lparr>DDRB := DDRB s2 OR push_bit 3 1\<rparr>
      in s3\<lparr>DDRB := DDRB s3 OR push_bit 5 1\<rparr>)"

text \<open>
  The loop of \<open>SdSpi::init\<close>,
  \<open>for (; divisor > b && r < 7; b <<= 1, r += r < 5 ? 1 : 2) {}\<close>, on \<open>uint8_t\<close>;
  it returns the final \<open>(b, r)\<close>.
\<close>

function init_loop :: "u8 \<Rightarrow> u8 \<Rightarrow> u8 \<Rightarrow> u8 \<times> u8" where
  "init_loop divisor b r =
     (if divisor > b \<and> r < 7
      then init_loop divisor (push_bit 1 b) (r + (if r < 5 then 1 else 2))
      else (b, r))"
  by pat_completeness auto
termination
proof (relation "measure (\<lambda>(divisor, b, r). 9 - unat r)")
  show "wf (measure (\<lambda>(divisor, b, r). 9 - unat r))"
    by simp
next
  fix divisor b r :: u8
  assume "b < divisor \<and> r < 7"
  then have r7: "unat r < 7"
    by (simp add: word_less_nat_alt)
  have "unat (r + (if r < 5 then 1 else 2)) = unat r + (if r < 5 then 1 else 2)"
    using r7 by (simp add: unat_word_ariths)
  then show "((divisor, push_bit 1 b, r + (if r < 5 then 1 else 2)), (divisor, b, r))
      \<in> measure (\<lambda>(divisor, b, r). 9 - unat r)"
    using r7 by (cases "r < 5") simp_all
qed

text \<open>The encoded rate \<open>r\<close> that \<open>SdSpi::init\<close> has after its loop.\<close>

definition init_rate :: "u8 \<Rightarrow> u8" where
  "init_rate divisor = snd (init_loop divisor 2 0)"

definition SdSpi_init :: "u8 \<Rightarrow> spi_hw \<Rightarrow> spi_hw" where
  "SdSpi_init divisor s =
     (let r = init_rate divisor;
          s1 = s\<lparr>SPCR := push_bit SPE 1 OR push_bit MSTR 1 OR drop_bit 1 r\<rparr>
      in s1\<lparr>SPSR := (if r AND 1 \<noteq> 0 then 0 else push_bit SPI2X 1)\<rparr>)"

text \<open>\<open>SdSpi::receive()\<close>. The \<open>nop\<close> is one cycle.\<close>

definition SdSpi_receive :: "spi_hw \<Rightarrow> (u8 \<times> spi_hw) option" where
  "SdSpi_receive s = map_option read_SPDR (spin (tick 1 (write_SPDR 0xFF s)))"

text \<open>
  The \<open>for\<close> loop of \<open>SdSpi::receive(buf, n)\<close>, which polls no flag. \<open>c\<close> is the
  number of CPU cycles from the write of SPDR in the body to the next access to the SPI
  registers: the store to \<open>buf[i]\<close>, the four \<open>adiw\<close> (\<open>Minimum 8 cycle nop delay\<close>)
  and the increment, test and branch of the loop, which the compiler decides.
\<close>

function receive_loop :: "nat \<Rightarrow> nat \<Rightarrow> nat \<Rightarrow> buffer \<Rightarrow> spi_hw \<Rightarrow> buffer \<times> spi_hw" where
  "receive_loop c i n buf s =
     (if i < n
      then (let (b, s1) = read_SPDR s;
                s2 = write_SPDR 0xFF s1;
                buf1 = store buf i b;
                s3 = tick c s2
            in receive_loop c (Suc i) n buf1 s3)
      else (buf, s))"
  by pat_completeness auto
termination
  by (relation "measure (\<lambda>(c, i, n, buf, s). n - i)") auto

text \<open>\<open>SdSpi::receive(buf, n)\<close>: the return value, the buffer and the hardware.\<close>

definition SdSpi_receive_n ::
  "nat \<Rightarrow> buffer \<Rightarrow> nat \<Rightarrow> spi_hw \<Rightarrow> (u8 \<times> buffer \<times> spi_hw) option" where
  "SdSpi_receive_n c buf n s =
     (if n = 0 then Some (0, buf, s)
      else
        (let n1 = n - 1 in
         case spin (write_SPDR 0xFF s) of
           None \<Rightarrow> None
         | Some s1 \<Rightarrow>
             (let (buf1, s2) = receive_loop c 0 n1 buf s1 in
              case spin s2 of
                None \<Rightarrow> None
              | Some s3 \<Rightarrow>
                  (let (b, s4) = read_SPDR s3
                   in Some (0, store buf1 n1 b, s4)))))"

text \<open>\<open>SdSpi::send(data)\<close>.\<close>

definition SdSpi_send :: "u8 \<Rightarrow> spi_hw \<Rightarrow> spi_hw option" where
  "SdSpi_send data s = spin (tick 1 (write_SPDR data s))"

text \<open>
  The \<open>while (1)\<close> loop of \<open>SdSpi::send(buf, n)\<close>, left by \<open>break\<close> when \<open>i == n\<close>.
  The buffer is only read: it is the function from offsets to bytes.
\<close>

partial_function (option) send_loop ::
  "(nat \<Rightarrow> u8) \<Rightarrow> nat \<Rightarrow> u8 \<Rightarrow> nat \<Rightarrow> spi_hw \<Rightarrow> spi_hw option" where
  "send_loop buf n b i s =
     Option.bind (spin s) (\<lambda>s1.
       let s2 = write_SPDR b s1
       in if i = n then Some s2 else send_loop buf n (buf i) (Suc i) s2)"

text \<open>\<open>SdSpi::send(buf, n)\<close>.\<close>

definition SdSpi_send_n :: "(nat \<Rightarrow> u8) \<Rightarrow> nat \<Rightarrow> spi_hw \<Rightarrow> spi_hw option" where
  "SdSpi_send_n buf n s =
     (if n = 0 then Some s
      else
        (let s1 = write_SPDR (buf 0) s
         in Option.bind (if 1 < n then send_loop buf n (buf 1) 2 s1 else Some s1) spin))"

definition SdSpi_useSpiTransactions :: "spi_hw \<Rightarrow> bool" where
  "SdSpi_useSpiTransactions s = True"

subsection \<open>Back-to-back single-byte transfers\<close>

text \<open>
  What the pipelined loops are compared with: \<open>buf[i] = receive()\<close> and
  \<open>send(buf[i])\<close> for \<open>i\<close> from its start up to \<open>n\<close>, one call after the other.
\<close>

function receive_each :: "nat \<Rightarrow> nat \<Rightarrow> buffer \<Rightarrow> spi_hw \<Rightarrow> (buffer \<times> spi_hw) option" where
  "receive_each i n buf s =
     (if i < n
      then (case SdSpi_receive s of
              None \<Rightarrow> None
            | Some (b, s1) \<Rightarrow> receive_each (Suc i) n (store buf i b) s1)
      else Some (buf, s))"
  by pat_completeness auto
termination
  by (relation "measure (\<lambda>(i, n, buf, s). n - i)") auto

function send_each :: "(nat \<Rightarrow> u8) \<Rightarrow> nat \<Rightarrow> nat \<Rightarrow> spi_hw \<Rightarrow> spi_hw option" where
  "send_each buf i n s =
     (if i < n
      then (case SdSpi_send (buf i) s of
              None \<Rightarrow> None
            | Some s1 \<Rightarrow> send_each buf (Suc i) n s1)
      else Some s)"
  by pat_completeness auto
termination
  by (relation "measure (\<lambda>(buf, i, n, s). n - i)") auto

text \<open>
  The buffer after the bytes of the transfers \<open>x + i\<close>, ..., \<open>x + n - 1\<close> on MISO
  have been stored at the offsets \<open>i\<close>, ..., \<open>n - 1\<close>, in this order.
\<close>

definition filled :: "(nat \<Rightarrow> u8) \<Rightarrow> nat \<Rightarrow> nat \<Rightarrow> nat \<Rightarrow> buffer \<Rightarrow> buffer" where
  "filled m x i n buf = foldl (\<lambda>b j. store b j (m (x + j))) buf [i..<n]"

text \<open>The first \<open>n\<close> bytes of a buffer, and a buffer of zeros nothing was stored to.\<close>

definition buffer_bytes :: "nat \<Rightarrow> buffer \<Rightarrow> u8 list" where
  "buffer_bytes n b = map (cells b) [0..<n]"

definition zero_buffer :: buffer where
  "zero_buffer = \<lparr>cells = (\<lambda>j. 0), stored = []\<rparr>"

subsection \<open>SdSpiLib: the SPI library back-end\<close>

text \<open>
  The library is known by its calls only. Its state is the list of the calls made,
  oldest first; \<open>transfer\<close> returns the byte shifted in, \<open>lib_miso k\<close> for transfer
  number \<open>k\<close>. \<open>setClockDivider\<close> gets either the caller's integer or one of the
  constants \<open>SPI_CLOCK_DIV2\<close> ... \<open>SPI_CLOCK_DIV128\<close>, whose integer values belong to
  the platform.
\<close>

datatype bit_order = LSBFIRST | MSBFIRST

datatype data_mode = SPI_MODE0 | SPI_MODE1 | SPI_MODE2 | SPI_MODE3

datatype clock_div =
  SPI_CLOCK_DIV2 | SPI_CLOCK_DIV4 | SPI_CLOCK_DIV8 | SPI_CLOCK_DIV16
| SPI_CLOCK_DIV32 | SPI_CLOCK_DIV64 | SPI_CLOCK_DIV128

datatype clock_arg = Divisor u8 | Constant clock_div

datatype lib_call =
  Begin | SetBitOrder bit_order | SetDataMode data_mode | SetClockDivider clock_arg
| Transfer u8

record spi_lib =
  calls :: "lib_call list"
  lib_miso :: "nat \<Rightarrow> u8"
  lib_xfers :: nat

definition call :: "lib_call \<Rightarrow> spi_lib \<Rightarrow> spi_lib" where
  "call c st = st\<lparr>calls := calls st @ [c]\<rparr>"

definition SPI_transfer :: "u8 \<Rightarrow> spi_lib \<Rightarrow> u8 \<times> spi_lib" where
  "SPI_transfer b st =
     (lib_miso st (lib_xfers st), (call (Transfer b) st)\<lparr>lib_xfers := Suc (lib_xfers st)\<rparr>)"

text \<open>
  Modelled from the spec: the divisor a divider constant stands for, \<open>powers of two from
  2 to 128\<close>; the constants are defined by the platform's SPI.h, not by SdSpi.h.
\<close>

fun clock_div_value :: "clock_div \<Rightarrow> nat" where
  "clock_div_value SPI_CLOCK_DIV2 = 2"
| "clock_div_value SPI_CLOCK_DIV4 = 4"
| "clock_div_value SPI_CLOCK_DIV8 = 8"
| "clock_div_value SPI_CLOCK_DIV16 = 16"
| "clock_div_value SPI_CLOCK_DIV32 = 32"
| "clock_div_value SPI_CLOCK_DIV64 = 64"
| "clock_div_value SPI_CLOCK_DIV128 = 128"

text \<open>The argument of the last \<open>setClockDivider\<close> among the calls.\<close>

fun clock_set :: "lib_call list \<Rightarrow> clock_arg option" where
  "clock_set [] = None"
| "clock_set (c # cs) =
     (case clock_set cs of
        Some a \<Rightarrow> Some a
      | None \<Rightarrow> (case c of SetClockDivider a \<Rightarrow> Some a | _ \<Rightarrow> None))"

text \<open>The divisor of the constant the library was last given.\<close>

definition lib_divisor :: "spi_lib \<Rightarrow> nat option" where
  "lib_divisor st =
     (case clock_set (calls st) of
        Some (Constant k) \<Rightarrow> Some (clock_div_value k)
      | _ \<Rightarrow> None)"

text \<open>The library before any call, with the slave's bytes \<open>m\<close>.\<close>

definition lib_start :: "(nat \<Rightarrow> u8) \<Rightarrow> spi_lib" where
  "lib_start m = \<lparr>calls = [], lib_miso = m, lib_xfers = 0\<rparr>"

definition SdSpiLib_begin :: "spi_lib \<Rightarrow> spi_lib" where
  "SdSpiLib_begin st = call Begin st"

text \<open>
  \<open>SdSpiLib::init\<close>. \<open>div128_defined\<close> says whether the platform defines the macro
  \<open>SPI_CLOCK_DIV128\<close>, which selects the branch of the \<open>#ifndef\<close>.
\<close>

definition SdSpiLib_init :: "bool \<Rightarrow> u8 \<Rightarrow> spi_lib \<Rightarrow> spi_lib" where
  "SdSpiLib_init div128_defined divisor st =
     (let st1 = call (SetBitOrder MSBFIRST) st;
          st2 = call (SetDataMode SPI_MODE0) st1
      in if \<not> div128_defined then call (SetClockDivider (Divisor divisor)) st2
         else
           (let v = (if divisor \<le> 2 then SPI_CLOCK_DIV2
                     else if divisor \<le> 4 then SPI_CLOCK_DIV4
                     else if divisor \<le> 8 then SPI_CLOCK_DIV8
                     else if divisor \<le> 16 then SPI_CLOCK_DIV16
                     else if divisor \<le> 32 then SPI_CLOCK_DIV32
                     else if divisor \<le> 64 then SPI_CLOCK_DIV64
                     else SPI_CLOCK_DIV128)
            in call (SetClockDivider (Constant v)) st2))"

definition SdSpiLib_receive :: "spi_lib \<Rightarrow> u8 \<times> spi_lib" where
  "SdSpiLib_receive st = SPI_transfer 0xFF st"

text \<open>The loop of \<open>SdSpiLib::receive(buf, n)\<close>, from \<open>i\<close> on.\<close>

function lib_receive_loop :: "nat \<Rightarrow> nat \<Rightarrow> buffer \<Rightarrow> spi_lib \<Rightarrow> buffer \<times> spi_lib" where
  "lib_receive_loop i n buf st =
     (if i < n
      then (let (b, st1) = SPI_transfer 0xFF st
            in lib_receive_loop (Suc i) n (store buf i b) st1)
      else (buf, st))"
  by pat_completeness auto
termination
  by (relation "measure (\<lambda>(i, n, buf, st). n - i)") auto

definition SdSpiLib_receive_n :: "buffer \<Rightarrow> nat \<Rightarrow> spi_lib \<Rightarrow> u8 \<times> buffer \<times> spi_lib" where
  "SdSpiLib_receive_n buf n st = (let (buf1, st1) = lib_receive_loop 0 n buf st in (0, buf1, st1))"

definition SdSpiLib_send :: "u8 \<Rightarrow> spi_lib \<Rightarrow> spi_lib" where
  "SdSpiLib_send b st = snd (SPI_transfer b st)"

function lib_send_loop :: "(nat \<Rightarrow> u8) \<Rightarrow> nat \<Rightarrow> nat \<Rightarrow> spi_lib \<Rightarrow> spi_lib" where
  "lib_send_loop buf i n st =
     (if i < n then lib_send_loop buf (Suc i) n (snd (SPI_transfer (buf i) st)) else st)"
  by pat_completeness auto
termination
  by (relation "measure (\<lambda>(buf, i, n, st). n - i)") auto

definition SdSpiLib_send_n :: "(nat \<Rightarrow> u8) \<Rightarrow> nat \<Rightarrow> spi_lib \<Rightarrow> spi_lib" where
  "SdSpiLib_send_n buf n st = lib_send_loop buf 0 n st"

definition SdSpiLib_useSpiTransactions :: "spi_lib \<Rightarrow> bool" where
  "SdSpiLib_useSpiTransactions st = True"

subsection \<open>SdSpiSoft: the software back-end\<close>

text \<open>
  The member \<open>m_spi\<close> is a \<open>SoftSPI\<close> object of utility/SoftSPI.h, which is not at hand:
  its state is any type \<open>'m\<close> and its method \<open>receive\<close> is the parameter \<open>m_spi_receive\<close>.
\<close>

definition SdSpiSoft_receive :: "('m \<Rightarrow> u8 \<times> 'm) \<Rightarrow> 'm \<Rightarrow> u8 \<times> 'm" where
  "SdSpiSoft_receive m_spi_receive m = m_spi_receive m"

function soft_receive_loop ::
  "('m \<Rightarrow> u8 \<times> 'm) \<Rightarrow> nat \<Rightarrow> nat \<Rightarrow> buffer \<Rightarrow> 'm \<Rightarrow> buffer \<times> 'm" where
  "soft_receive_loop m_spi_receive i n buf m =
     (if i < n
      then (let (b, m1) = SdSpiSoft_receive m_spi_receive m
            in soft_receive_loop m_spi_receive (Suc i) n (store buf i b) m1)
      else (buf, m))"
  by pat_completeness auto
termination
  by (relation "measure (\<lambda>(m_spi_receive, i, n, buf, m). n - i)") auto

definition SdSpiSoft_receive_n ::
  "('m \<Rightarrow> u8 \<times> 'm) \<Rightarrow> buffer \<Rightarrow> nat \<Rightarrow> 'm \<Rightarrow> u8 \<times> buffer \<times> 'm" where
  "SdSpiSoft_receive_n m_spi_receive buf n m =
     (let (buf1, m1) = soft_receive_loop m_spi_receive 0 n buf m in (0, buf1, m1))"

definition SdSpiSoft_useSpiTransactions :: "'m \<Rightarrow> bool" where
  "SdSpiSoft_useSpiTransactions m = False"

declare spin.simps [code]
declare send_loop.simps [code]
declare receive_loop.simps [simp del]
declare receive_each.simps [simp del]
declare send_each.simps [simp del]
declare lib_receive_loop.simps [simp del]
declare lib_send_loop.simps [simp del]
declare soft_receive_loop.simps [simp del]
declare init_loop.simps [simp del]

section \<open>Properties\<close>

subsection \<open>The clock set by \<open>init\<close>\<close>

text \<open>The loop of \<open>SdSpi::init\<close> unrolled: the \<open>(b, r)\<close> it ends with.\<close>

lemma init_loop_table:
  "init_loop d 2 0 =
     (if d \<le> 2 then (2, 0) else if d \<le> 4 then (4, 1) else if d \<le> 8 then (8, 2)
      else if d \<le> 16 then (16, 3) else if d \<le> 32 then (32, 4)
      else if d \<le> 64 then (64, 5) else (128, 7))"
proof -
  have s7: "init_loop d 128 7 = (128, 7)"
    by (simp add: init_loop.simps [of d 128 7])
  have s5: "init_loop d 64 5 = (if d \<le> 64 then (64, 5) else (128, 7))"
    by (auto simp add: init_loop.simps [of d 64 5] s7)
  have s4: "init_loop d 32 4 = (if d \<le> 32 then (32, 4) else init_loop d 64 5)"
    by (auto simp add: init_loop.simps [of d 32 4])
  have s3: "init_loop d 16 3 = (if d \<le> 16 then (16, 3) else init_loop d 32 4)"
    by (auto simp add: init_loop.simps [of d 16 3])
  have s2: "init_loop d 8 2 = (if d \<le> 8 then (8, 2) else init_loop d 16 3)"
    by (auto simp add: init_loop.simps [of d 8 2])
  have s1: "init_loop d 4 1 = (if d \<le> 4 then (4, 1) else init_loop d 8 2)"
    by (auto simp add: init_loop.simps [of d 4 1])
  have s0: "init_loop d 2 0 = (if d \<le> 2 then (2, 0) else init_loop d 4 1)"
    by (auto simp add: init_loop.simps [of d 2 0])
  show ?thesis
    by (simp add: s0 s1 s2 s3 s4 s5)
qed

lemma init_rate_table:
  "init_rate d =
     (if unat d \<le> 2 then 0 else if unat d \<le> 4 then 1 else if unat d \<le> 8 then 2
      else if unat d \<le> 16 then 3 else if unat d \<le> 32 then 4
      else if unat d \<le> 64 then 5 else 7)"
  by (simp add: init_rate_def init_loop_table word_le_nat_alt)

text \<open>The SCK divisor the hardware decodes from the registers \<open>SdSpi::init\<close> writes.\<close>

lemma sck_divisor_init:
  "sck_divisor (SdSpi_init d s) =
     (if unat d \<le> 2 then 2 else if unat d \<le> 4 then 4 else if unat d \<le> 8 then 8
      else if unat d \<le> 16 then 16 else if unat d \<le> 32 then 32
      else if unat d \<le> 64 then 64 else 128)"
  by (simp add: SdSpi_init_def Let_def init_rate_table sck_divisor_def SPE_def MSTR_def SPI2X_def)

lemma init_fields:
  "busy (SdSpi_init d s) = busy s" "spif (SdSpi_init d s) = spif s"
  "armed (SdSpi_init d s) = armed s" "miso (SdSpi_init d s) = miso s"
  "xfers (SdSpi_init d s) = xfers s" "mosi (SdSpi_init d s) = mosi s"
  "rx (SdSpi_init d s) = rx s" "dr_writes (SdSpi_init d s) = dr_writes s"
  by (simp_all add: SdSpi_init_def Let_def)

lemma begin_fields:
  "busy (SdSpi_begin s) = busy s" "spif (SdSpi_begin s) = spif s"
  "armed (SdSpi_begin s) = armed s" "miso (SdSpi_begin s) = miso s"
  "xfers (SdSpi_begin s) = xfers s" "mosi (SdSpi_begin s) = mosi s"
  "rx (SdSpi_begin s) = rx s" "dr_writes (SdSpi_begin s) = dr_writes s"
  by (simp_all add: SdSpi_begin_def Let_def)

lemma clock_set_append:
  "clock_set (cs @ [SetClockDivider a]) = Some a"
  by (induction cs) simp_all

lemma lib_divisor_init:
  "lib_divisor (SdSpiLib_init True d st) =
     Some (if unat d \<le> 2 then 2 else if unat d \<le> 4 then 4 else if unat d \<le> 8 then 8
      else if unat d \<le> 16 then 16 else if unat d \<le> 32 then 32
      else if unat d \<le> 64 then 64 else 128)"
proof -
  have "\<exists>cs v. calls (SdSpiLib_init True d st) = cs @ [SetClockDivider (Constant v)] \<and>
      clock_div_value v = (if unat d \<le> 2 then 2 else if unat d \<le> 4 then 4 else if unat d \<le> 8 then 8
      else if unat d \<le> 16 then 16 else if unat d \<le> 32 then 32
      else if unat d \<le> 64 then 64 else 128)"
    by (simp add: SdSpiLib_init_def call_def Let_def word_le_nat_alt)
  then show ?thesis
    by (auto simp add: lib_divisor_def clock_set_append simp del: clock_div_value.simps)
qed

text \<open>
  C3. For every requested divisor \<open>d\<close>, \<open>SdSpi::init(d)\<close> sets one of the SCK divisors
  2, 4, 8, 16, 32, 64, 128: the smallest of them that is at least \<open>d\<close> when \<open>d \<le> 128\<close>,
  and 128 when \<open>d > 128\<close>. With a CPU clock of 16 MHz, \<open>init(1)\<close> and \<open>init(2)\<close> give
  8 MHz, \<open>init(3)\<close> gives 4 MHz, \<open>init(128)\<close> and \<open>init(129)\<close> give 125 kHz.
\<close>

theorem SdSpi_init_smallest_divisor:
  "sck_divisor (SdSpi_init d s) \<in> {2, 4, 8, 16, 32, 64, 128} \<and>
   (unat d \<le> 128 \<longrightarrow>
      unat d \<le> sck_divisor (SdSpi_init d s) \<and>
      (\<forall>k \<in> {2, 4, 8, 16, 32, 64, 128}. unat d \<le> k \<longrightarrow> sck_divisor (SdSpi_init d s) \<le> k)) \<and>
   (128 < unat d \<longrightarrow> sck_divisor (SdSpi_init d s) = 128) \<and>
   sck_hz 16000000 (SdSpi_init 1 s) = 8000000 \<and>
   sck_hz 16000000 (SdSpi_init 2 s) = 8000000 \<and>
   sck_hz 16000000 (SdSpi_init 3 s) = 4000000 \<and>
   sck_hz 16000000 (SdSpi_init 128 s) = 125000 \<and>
   sck_hz 16000000 (SdSpi_init 129 s) = 125000"
proof -
  have "sck_divisor (SdSpi_init d s) \<in> {2, 4, 8, 16, 32, 64, 128}"
    by (simp add: sck_divisor_init)
  moreover have "unat d \<le> 128 \<longrightarrow> unat d \<le> sck_divisor (SdSpi_init d s)"
    by (simp add: sck_divisor_init)
  moreover have "unat d \<le> 128 \<longrightarrow>
      (\<forall>k \<in> {2, 4, 8, 16, 32, 64, 128}. unat d \<le> k \<longrightarrow> sck_divisor (SdSpi_init d s) \<le> k)"
    by (simp add: sck_divisor_init)
  moreover have "128 < unat d \<longrightarrow> sck_divisor (SdSpi_init d s) = 128"
    by (simp add: sck_divisor_init)
  moreover have "sck_hz 16000000 (SdSpi_init 1 s) = 8000000"
    "sck_hz 16000000 (SdSpi_init 2 s) = 8000000"
    "sck_hz 16000000 (SdSpi_init 3 s) = 4000000"
    "sck_hz 16000000 (SdSpi_init 128 s) = 125000"
    "sck_hz 16000000 (SdSpi_init 129 s) = 125000"
    by (simp_all add: sck_hz_def sck_divisor_init)
  ultimately show ?thesis
    by blast
qed

text \<open>C3 at \<open>d = 100\<close> and \<open>d = 200\<close>: both get the divisor 128.\<close>

theorem SdSpi_init_smallest_divisor_witness:
  "unat (100 :: u8) \<le> 128 \<and> (128 :: nat) \<in> {2, 4, 8, 16, 32, 64, 128} \<and>
   unat (100 :: u8) \<le> (128 :: nat) \<and>
   unat (100 :: u8) \<le> sck_divisor (SdSpi_init 100 (reset_state ones)) \<and>
   sck_divisor (SdSpi_init 100 (reset_state ones)) \<le> 128 \<and>
   128 < unat (200 :: u8) \<and> sck_divisor (SdSpi_init 200 (reset_state ones)) = 128"
  using SdSpi_init_smallest_divisor [of 100 "reset_state ones"]
    SdSpi_init_smallest_divisor [of 200 "reset_state ones"]
  by simp

text \<open>
  C4 as stated fails at \<open>d = 1\<close>: after \<open>begin(); init(1)\<close> the SCK period is 2 CPU
  periods, which is not less than \<open>2 * 1\<close>.
\<close>

theorem init_period_counterexample:
  "\<not> (unat (1 :: u8) \<le> sck_divisor (SdSpi_init 1 (SdSpi_begin (reset_state ones))) \<and>
      sck_divisor (SdSpi_init 1 (SdSpi_begin (reset_state ones))) < 2 * unat (1 :: u8))"
  by (simp add: sck_divisor_init)

text \<open>
  C4, amended. For every \<open>d\<close> from 2 to 128, after \<open>begin(); init(d)\<close> the SCK period
  is at least \<open>d\<close> and less than \<open>2 * d\<close> CPU periods, for \<open>SdSpi\<close> and for \<open>SdSpiLib\<close>
  on a platform that defines the divider constants. For \<open>d \<le> 1\<close> it is 2 CPU periods,
  and for \<open>d > 128\<close> it is 128 CPU periods.
\<close>

theorem init_period_bounds:
  "(2 \<le> unat d \<and> unat d \<le> 128 \<longrightarrow>
      unat d \<le> sck_divisor (SdSpi_init d (SdSpi_begin s)) \<and>
      sck_divisor (SdSpi_init d (SdSpi_begin s)) < 2 * unat d \<and>
      (case lib_divisor (SdSpiLib_init True d (SdSpiLib_begin st)) of
         None \<Rightarrow> False
       | Some k \<Rightarrow> unat d \<le> k \<and> k < 2 * unat d)) \<and>
   (unat d \<le> 1 \<longrightarrow>
      sck_divisor (SdSpi_init d (SdSpi_begin s)) = 2 \<and>
      lib_divisor (SdSpiLib_init True d (SdSpiLib_begin st)) = Some 2) \<and>
   (128 < unat d \<longrightarrow>
      sck_divisor (SdSpi_init d (SdSpi_begin s)) = 128 \<and>
      lib_divisor (SdSpiLib_init True d (SdSpiLib_begin st)) = Some 128)"
  by (simp add: sck_divisor_init lib_divisor_init)

text \<open>C4, amended, at \<open>d = 3\<close>, \<open>d = 1\<close> and \<open>d = 255\<close>.\<close>

theorem init_period_bounds_witness:
  "2 \<le> unat (3 :: u8) \<and> unat (3 :: u8) \<le> 128 \<and>
   unat (3 :: u8) \<le> sck_divisor (SdSpi_init 3 (SdSpi_begin (reset_state ones))) \<and>
   sck_divisor (SdSpi_init 3 (SdSpi_begin (reset_state ones))) < 2 * unat (3 :: u8) \<and>
   lib_divisor (SdSpiLib_init True 3 (SdSpiLib_begin (lib_start ones))) = Some 4 \<and>
   unat (1 :: u8) \<le> 1 \<and>
   sck_divisor (SdSpi_init 1 (SdSpi_begin (reset_state ones))) = 2 \<and>
   128 < unat (255 :: u8) \<and>
   sck_divisor (SdSpi_init 255 (SdSpi_begin (reset_state ones))) = 128"
  using init_period_bounds [of 3 "reset_state ones" "lib_start ones"]
    init_period_bounds [of 1 "reset_state ones" "lib_start ones"]
    init_period_bounds [of 255 "reset_state ones" "lib_start ones"]
  by (simp add: lib_divisor_init)

text \<open>
  C5 as stated fails at \<open>d = 64\<close>: the loop ends with \<open>r = 5\<close>, which is not one of
  0, 1, 2, 3, 4, 6, 7.
\<close>

theorem init_rate_counterexample:
  "init_rate 64 = 5 \<and> init_rate 64 \<notin> {0, 1, 2, 3, 4, 6, 7}"
  by (simp add: init_rate_table)

text \<open>
  C5, amended. For every requested divisor the encoded rate \<open>r\<close> of \<open>SdSpi::init\<close> is
  one of 0, 1, 2, 3, 4, 5, 7; the rates 0 to 5 give the divisors 2, 4, 8, 16, 32, 64 and
  the rate 7 gives 128. The top two bits of \<open>r\<close> are the clock-select field of SPCR,
  written with the enable and master bits; SPI2X in SPSR is the inverted low bit of \<open>r\<close>,
  so an even \<open>r\<close> doubles the clock.
\<close>

theorem init_rate_encoding:
  "init_rate d \<in> {0, 1, 2, 3, 4, 5, 7} \<and>
   (init_rate d = 0 \<longrightarrow> sck_divisor (SdSpi_init d s) = 2) \<and>
   (init_rate d = 1 \<longrightarrow> sck_divisor (SdSpi_init d s) = 4) \<and>
   (init_rate d = 2 \<longrightarrow> sck_divisor (SdSpi_init d s) = 8) \<and>
   (init_rate d = 3 \<longrightarrow> sck_divisor (SdSpi_init d s) = 16) \<and>
   (init_rate d = 4 \<longrightarrow> sck_divisor (SdSpi_init d s) = 32) \<and>
   (init_rate d = 5 \<longrightarrow> sck_divisor (SdSpi_init d s) = 64) \<and>
   (init_rate d = 7 \<longrightarrow> sck_divisor (SdSpi_init d s) = 128) \<and>
   SPCR (SdSpi_init d s) AND 3 = drop_bit 1 (init_rate d) \<and>
   bit (SPCR (SdSpi_init d s)) SPE \<and> bit (SPCR (SdSpi_init d s)) MSTR \<and>
   bit (SPSR (SdSpi_init d s)) SPI2X = (\<not> bit (init_rate d) 0) \<and>
   (even (init_rate d) \<longrightarrow> bit (SPSR (SdSpi_init d s)) SPI2X)"
proof -
  have r: "init_rate d \<in> {0, 1, 2, 3, 4, 5, 7}"
    by (simp add: init_rate_table)
  have regs: "SPCR (SdSpi_init d s) = push_bit SPE 1 OR push_bit MSTR 1 OR drop_bit 1 (init_rate d)"
    "SPSR (SdSpi_init d s) = (if init_rate d AND 1 \<noteq> 0 then 0 else push_bit SPI2X 1)"
    by (simp_all add: SdSpi_init_def Let_def)
  have "(init_rate d = 0 \<longrightarrow> sck_divisor (SdSpi_init d s) = 2) \<and>
   (init_rate d = 1 \<longrightarrow> sck_divisor (SdSpi_init d s) = 4) \<and>
   (init_rate d = 2 \<longrightarrow> sck_divisor (SdSpi_init d s) = 8) \<and>
   (init_rate d = 3 \<longrightarrow> sck_divisor (SdSpi_init d s) = 16) \<and>
   (init_rate d = 4 \<longrightarrow> sck_divisor (SdSpi_init d s) = 32) \<and>
   (init_rate d = 5 \<longrightarrow> sck_divisor (SdSpi_init d s) = 64) \<and>
   (init_rate d = 7 \<longrightarrow> sck_divisor (SdSpi_init d s) = 128)"
    by (simp add: sck_divisor_def regs SPE_def MSTR_def SPI2X_def)
  moreover have "SPCR (SdSpi_init d s) AND 3 = drop_bit 1 (init_rate d)"
    using r by (auto simp add: regs SPE_def MSTR_def)
  moreover have "bit (SPCR (SdSpi_init d s)) SPE \<and> bit (SPCR (SdSpi_init d s)) MSTR"
    using r by (auto simp add: regs SPE_def MSTR_def bit_or_iff)
  moreover have "bit (SPSR (SdSpi_init d s)) SPI2X = (\<not> bit (init_rate d) 0)"
    using r by (auto simp add: regs SPI2X_def)
  moreover have "even (init_rate d) \<longrightarrow> bit (SPSR (SdSpi_init d s)) SPI2X"
    using r by (auto simp add: regs SPI2X_def)
  ultimately show ?thesis
    using r by blast
qed

text \<open>C5, amended, at \<open>d = 64\<close> (rate 5) and \<open>d = 2\<close> (rate 0, clock doubled).\<close>

theorem init_rate_encoding_witness:
  "init_rate 64 = 5 \<and> sck_divisor (SdSpi_init 64 (reset_state ones)) = 64 \<and>
   init_rate 2 = 0 \<and> even (init_rate 2) \<and>
   bit (SPSR (SdSpi_init 2 (reset_state ones))) SPI2X \<and>
   sck_divisor (SdSpi_init 2 (reset_state ones)) = 2"
  using init_rate_encoding [of 64 "reset_state ones"]
    init_rate_encoding [of 2 "reset_state ones"]
  by (simp add: init_rate_table)

text \<open>
  C9. Without the macro \<open>SPI_CLOCK_DIV128\<close>, \<open>SdSpiLib::init(d)\<close> passes \<open>d\<close> itself to
  \<open>setClockDivider\<close>. With the macro it passes one of the divider constants, and
  \<open>SPI_CLOCK_DIV128\<close> for every \<open>d > 64\<close>.
\<close>

theorem SdSpiLib_init_divider:
  "calls (SdSpiLib_init False d st) =
     calls st @ [SetBitOrder MSBFIRST, SetDataMode SPI_MODE0, SetClockDivider (Divisor d)] \<and>
   (\<exists>v. calls (SdSpiLib_init True d st) =
     calls st @ [SetBitOrder MSBFIRST, SetDataMode SPI_MODE0, SetClockDivider (Constant v)]) \<and>
   (64 < unat d \<longrightarrow> calls (SdSpiLib_init True d st) =
     calls st @ [SetBitOrder MSBFIRST, SetDataMode SPI_MODE0,
       SetClockDivider (Constant SPI_CLOCK_DIV128)])"
  by (simp add: SdSpiLib_init_def call_def Let_def word_le_nat_alt)

text \<open>C9 at \<open>d = 200\<close>, with and without the macro.\<close>

theorem SdSpiLib_init_divider_witness:
  "64 < unat (200 :: u8) \<and>
   calls (SdSpiLib_init True 200 (lib_start ones)) =
     [SetBitOrder MSBFIRST, SetDataMode SPI_MODE0, SetClockDivider (Constant SPI_CLOCK_DIV128)] \<and>
   calls (SdSpiLib_init False 200 (lib_start ones)) =
     [SetBitOrder MSBFIRST, SetDataMode SPI_MODE0, SetClockDivider (Divisor 200)]"
  using SdSpiLib_init_divider [of 200 "lib_start ones"]
  by (simp add: lib_start_def)

subsection \<open>The transaction flag\<close>

text \<open>
  C8. \<open>useSpiTransactions\<close> is true for \<open>SdSpi\<close> and for \<open>SdSpiLib\<close> and false for
  \<open>SdSpiSoft\<close>, whatever the instance.
\<close>

theorem useSpiTransactions_values:
  "SdSpi_useSpiTransactions s = True \<and> SdSpiLib_useSpiTransactions st = True \<and>
   SdSpiSoft_useSpiTransactions m = False"
  by (simp add: SdSpi_useSpiTransactions_def SdSpiLib_useSpiTransactions_def
      SdSpiSoft_useSpiTransactions_def)

subsection \<open>The peripheral\<close>

text \<open>A byte takes at least 16 CPU cycles, and the data path does not change the clock.\<close>

lemma sck_divisor_ge: "2 \<le> sck_divisor s"
  by (simp add: sck_divisor_def Let_def)

lemma byte_cycles_ge: "16 \<le> byte_cycles s"
  using sck_divisor_ge [of s] by (simp add: byte_cycles_def)

lemma byte_cycles_update [simp]:
  "byte_cycles (s\<lparr>spif := a\<rparr>) = byte_cycles s"
  "byte_cycles (s\<lparr>armed := a\<rparr>) = byte_cycles s"
  "byte_cycles (s\<lparr>rx := v\<rparr>) = byte_cycles s"
  "byte_cycles (s\<lparr>busy := k\<rparr>) = byte_cycles s"
  "byte_cycles (s\<lparr>xfers := k\<rparr>) = byte_cycles s"
  "byte_cycles (s\<lparr>mosi := vs\<rparr>) = byte_cycles s"
  "byte_cycles (s\<lparr>dr_writes := vs\<rparr>) = byte_cycles s"
  by (simp_all add: byte_cycles_def sck_divisor_def)

text \<open>
  The polling loop ends when the flag is set or a byte is being shifted: at once in the
  first case, when the byte is complete in the second.
\<close>

lemma spin_set: "spif s \<Longrightarrow> spin s = Some (s\<lparr>armed := True\<rparr>)"
  by (simp add: spin.simps)

lemma spin_busy:
  "\<not> spif s \<Longrightarrow> 0 < busy s \<Longrightarrow> spin s = Some ((complete s)\<lparr>armed := True\<rparr>)"
proof (induction "busy s" arbitrary: s)
  case 0
  then show ?case by simp
next
  case (Suc k)
  show ?case
  proof (cases "k = 0")
    case True
    with Suc have "tick (Suc 0) s = complete s"
      by (simp add: tick_def)
    moreover have "spif (complete s)"
      by (simp add: complete_def)
    ultimately show ?thesis
      using Suc.prems by (simp add: spin.simps [of s] spin_set)
  next
    case False
    with Suc have t: "tick (Suc 0) s = s\<lparr>busy := k\<rparr>"
      by (simp add: tick_def)
    have "spin (s\<lparr>busy := k\<rparr>) = Some ((complete (s\<lparr>busy := k\<rparr>))\<lparr>armed := True\<rparr>)"
      using Suc.prems False by (intro Suc.hyps(1)) (use Suc.hyps(2) in simp_all)
    moreover have "complete (s\<lparr>busy := k\<rparr>) = complete s"
      by (simp add: complete_def)
    ultimately show ?thesis
      using Suc.prems by (simp add: spin.simps [of s] t)
  qed
qed

lemma spin_live:
  "spif s \<or> 0 < busy s \<Longrightarrow>
   spin s = Some ((if spif s then s else complete s)\<lparr>armed := True\<rparr>)"
  by (auto simp add: spin_set spin_busy)

text \<open>Every write to SPDR and every \<open>transfer\<close> of the library is recorded.\<close>

lemma write_SPDR_logged: "dr_writes (write_SPDR v s) = dr_writes s @ [v]"
  by (simp add: write_SPDR_def clear_flag_def Let_def)

lemma SPI_transfer_logged: "calls (snd (SPI_transfer b st)) = calls st @ [Transfer b]"
  by (simp add: SPI_transfer_def call_def)

subsection \<open>Single bytes\<close>

text \<open>From rest, \<open>receive()\<close> and \<open>send(v)\<close> shift one byte and leave the peripheral at rest.\<close>

lemma SdSpi_receive_idle:
  assumes "idle s"
  shows "SdSpi_receive s =
    Some (miso s (xfers s),
      s\<lparr>spif := False, armed := False, rx := miso s (xfers s), busy := 0,
        xfers := Suc (xfers s), mosi := mosi s @ [0xFF], dr_writes := dr_writes s @ [0xFF]\<rparr>)"
proof -
  let ?s1 = "tick (Suc 0) (write_SPDR 0xFF s)"
  have s1: "?s1 = s\<lparr>spif := False, armed := False, busy := byte_cycles s - 1,
      mosi := mosi s @ [0xFF], dr_writes := dr_writes s @ [0xFF]\<rparr>"
    using assms byte_cycles_ge [of s]
    by (auto simp add: idle_def write_SPDR_def clear_flag_def tick_def Let_def)
  have "spin ?s1 = Some ((complete ?s1)\<lparr>armed := True\<rparr>)"
    using byte_cycles_ge [of s] by (intro spin_busy) (simp_all add: s1)
  then show ?thesis
    by (simp add: SdSpi_receive_def read_SPDR_def clear_flag_def complete_def s1)
qed

lemma SdSpi_send_idle:
  assumes "idle s"
  shows "SdSpi_send v s =
    Some (s\<lparr>spif := True, armed := True, rx := miso s (xfers s), busy := 0,
        xfers := Suc (xfers s), mosi := mosi s @ [v], dr_writes := dr_writes s @ [v]\<rparr>)"
proof -
  let ?s1 = "tick (Suc 0) (write_SPDR v s)"
  have s1: "?s1 = s\<lparr>spif := False, armed := False, busy := byte_cycles s - 1,
      mosi := mosi s @ [v], dr_writes := dr_writes s @ [v]\<rparr>"
    using assms byte_cycles_ge [of s]
    by (auto simp add: idle_def write_SPDR_def clear_flag_def tick_def Let_def)
  have "spin ?s1 = Some ((complete ?s1)\<lparr>armed := True\<rparr>)"
    using byte_cycles_ge [of s] by (intro spin_busy) (simp_all add: s1)
  then show ?thesis
    by (simp add: SdSpi_send_def complete_def s1)
qed

lemma first_transfer:
  assumes "idle s"
  shows "spin (write_SPDR v s) =
    Some (s\<lparr>spif := True, armed := True, rx := miso s (xfers s), busy := 0,
        xfers := Suc (xfers s), mosi := mosi s @ [v], dr_writes := dr_writes s @ [v]\<rparr>)"
proof -
  let ?s1 = "write_SPDR v s"
  have s1: "?s1 = s\<lparr>spif := False, armed := False, busy := byte_cycles s,
      mosi := mosi s @ [v], dr_writes := dr_writes s @ [v]\<rparr>"
    using assms by (auto simp add: idle_def write_SPDR_def clear_flag_def Let_def)
  have "spin ?s1 = Some ((complete ?s1)\<lparr>armed := True\<rparr>)"
    using byte_cycles_ge [of s] by (intro spin_busy) (simp_all add: s1)
  then show ?thesis
    by (simp add: complete_def s1)
qed

subsection \<open>Receiving \<open>n\<close> bytes\<close>

lemma filled_step:
  "i < n \<Longrightarrow> filled m x i n buf = filled m x (Suc i) n (store buf i (m (x + i)))"
  by (simp add: filled_def upt_conv_Cons)

lemma filled_done: "n \<le> i \<Longrightarrow> filled m x i n buf = buf"
  by (simp add: filled_def)

lemma filled_last: "i \<le> n \<Longrightarrow> store (filled m x i n buf) n (m (x + n)) = filled m x i (Suc n) buf"
  by (simp add: filled_def)

lemma cells_filled:
  "cells (filled m x 0 n buf) j = (if j < n then m (x + j) else cells buf j)"
proof (induction n)
  case 0
  then show ?case by (simp add: filled_def)
next
  case (Suc n)
  have "filled m x 0 (Suc n) buf = store (filled m x 0 n buf) n (m (x + n))"
    by (simp add: filled_def)
  with Suc show ?case
    by (simp add: store_def)
qed

text \<open>\<open>n\<close> calls of \<open>receive()\<close> from rest store the bytes of the next \<open>n\<close> transfers.\<close>

lemma receive_each_idle:
  "idle s \<Longrightarrow> xfers s = x + i \<Longrightarrow>
   \<exists>s'. receive_each i n buf s = Some (filled (miso s) x i n buf, s') \<and> idle s' \<and>
     mosi s' = mosi s @ replicate (n - i) 0xFF"
proof (induction "n - i" arbitrary: i buf s)
  case 0
  then show ?case
    by (simp add: receive_each.simps [of i n] filled_done)
next
  case (Suc k)
  let ?s1 = "s\<lparr>spif := False, armed := False, rx := miso s (xfers s), busy := 0,
        xfers := Suc (xfers s), mosi := mosi s @ [0xFF], dr_writes := dr_writes s @ [0xFF]\<rparr>"
  from Suc.hyps(2) have lt: "i < n" and k: "k = n - Suc i"
    by simp_all
  have "\<exists>s'. receive_each (Suc i) n (store buf i (miso s (xfers s))) ?s1 =
      Some (filled (miso ?s1) x (Suc i) n (store buf i (miso s (xfers s))), s') \<and> idle s' \<and>
      mosi s' = mosi ?s1 @ replicate (n - Suc i) 0xFF"
    using Suc.prems by (intro Suc.hyps(1) [OF k]) (simp_all add: idle_def)
  then obtain s' where
    "receive_each (Suc i) n (store buf i (miso s (xfers s))) ?s1 =
      Some (filled (miso s) x (Suc i) n (store buf i (miso s (xfers s))), s')"
    "idle s'" "mosi s' = mosi s @ 0xFF # replicate (n - Suc i) 0xFF"
    by auto
  moreover have "replicate (n - i) (0xFF :: u8) = 0xFF # replicate (n - Suc i) 0xFF"
    using lt by (simp add: Suc_diff_Suc flip: replicate_Suc)
  ultimately show ?case
    using lt Suc.prems
    by (simp add: receive_each.simps [of i n] SdSpi_receive_idle filled_step [OF lt])
qed

text \<open>
  The pipelined loop when a byte is shifted within the cycles of one iteration: each
  read of SPDR finds the byte of the transfer the iteration before started.
\<close>

lemma loop_body_fast:
  assumes "busy s = 0" and "byte_cycles s \<le> c"
  shows "tick c (write_SPDR 0xFF (snd (read_SPDR s))) =
    s\<lparr>spif := True, armed := False, rx := miso s (xfers s), busy := 0,
      xfers := Suc (xfers s), mosi := mosi s @ [0xFF], dr_writes := dr_writes s @ [0xFF]\<rparr>"
  using assms byte_cycles_ge [of s]
  by (auto simp add: read_SPDR_def write_SPDR_def clear_flag_def tick_def complete_def Let_def)

lemma receive_loop_done: "n \<le> i \<Longrightarrow> receive_loop c i n buf s = (buf, s)"
  by (subst receive_loop.simps) simp

lemma receive_loop_fast:
  "busy s = 0 \<Longrightarrow> spif s \<Longrightarrow> byte_cycles s \<le> c \<Longrightarrow> rx s = miso s (x + i) \<Longrightarrow>
   xfers s = Suc (x + i) \<Longrightarrow> i \<le> n \<Longrightarrow>
   \<exists>s'. receive_loop c i n buf s = (filled (miso s) x i n buf, s') \<and> busy s' = 0 \<and> spif s' \<and>
     rx s' = miso s (x + n) \<and> mosi s' = mosi s @ replicate (n - i) 0xFF"
proof (induction "n - i" arbitrary: i buf s)
  case 0
  then show ?case
    by (simp add: receive_loop_done filled_done)
next
  case (Suc k)
  let ?s3 = "s\<lparr>spif := True, armed := False, rx := miso s (xfers s), busy := 0,
      xfers := Suc (xfers s), mosi := mosi s @ [0xFF], dr_writes := dr_writes s @ [0xFF]\<rparr>"
  from Suc.hyps(2) Suc.prems have lt: "i < n" and k: "k = n - Suc i"
    by simp_all
  have body: "tick c (write_SPDR 0xFF (snd (read_SPDR s))) = ?s3"
    using Suc.prems by (intro loop_body_fast) simp_all
  have "\<exists>s'. receive_loop c (Suc i) n (store buf i (rx s)) ?s3 =
      (filled (miso ?s3) x (Suc i) n (store buf i (rx s)), s') \<and> busy s' = 0 \<and> spif s' \<and>
      rx s' = miso ?s3 (x + n) \<and> mosi s' = mosi ?s3 @ replicate (n - Suc i) 0xFF"
    using Suc.prems lt by (intro Suc.hyps(1) [OF k]) simp_all
  then obtain s' where
    "receive_loop c (Suc i) n (store buf i (rx s)) ?s3 =
      (filled (miso s) x (Suc i) n (store buf i (rx s)), s')"
    "busy s' = 0" "spif s'" "rx s' = miso s (x + n)"
    "mosi s' = mosi s @ 0xFF # replicate (n - Suc i) 0xFF"
    by auto
  moreover have "replicate (n - i) (0xFF :: u8) = 0xFF # replicate (n - Suc i) 0xFF"
    using lt by (simp add: Suc_diff_Suc flip: replicate_Suc)
  moreover have "receive_loop c i n buf s =
      receive_loop c (Suc i) n (store buf i (rx s)) (tick c (write_SPDR 0xFF (snd (read_SPDR s))))"
    using lt by (simp add: receive_loop.simps [of c i n] read_SPDR_def)
  ultimately show ?case
    using lt Suc.prems by (simp add: body filled_step [OF lt])
qed

lemma SdSpi_receive_n_fast:
  assumes "idle s" and "byte_cycles s \<le> c"
  shows "\<exists>s'. SdSpi_receive_n c buf n s = Some (0, filled (miso s) (xfers s) 0 n buf, s') \<and>
     mosi s' = mosi s @ replicate n 0xFF"
proof (cases n)
  case 0
  then show ?thesis
    by (simp add: SdSpi_receive_n_def filled_done)
next
  case (Suc n1)
  let ?s1 = "s\<lparr>spif := True, armed := True, rx := miso s (xfers s), busy := 0,
        xfers := Suc (xfers s), mosi := mosi s @ [0xFF], dr_writes := dr_writes s @ [0xFF]\<rparr>"
  have first: "spin (write_SPDR 0xFF s) = Some ?s1"
    using assms(1) by (rule first_transfer)
  have "\<exists>s'. receive_loop c 0 n1 buf ?s1 = (filled (miso ?s1) (xfers s) 0 n1 buf, s') \<and>
      busy s' = 0 \<and> spif s' \<and> rx s' = miso ?s1 (xfers s + n1) \<and>
      mosi s' = mosi ?s1 @ replicate (n1 - 0) 0xFF"
    using assms(2) by (intro receive_loop_fast) simp_all
  then obtain s2 where loop: "receive_loop c 0 n1 buf ?s1 = (filled (miso s) (xfers s) 0 n1 buf, s2)"
    and s2: "busy s2 = 0" "spif s2" "rx s2 = miso s (xfers s + n1)"
      "mosi s2 = mosi s @ 0xFF # replicate n1 0xFF"
    by auto
  have last: "spin s2 = Some (s2\<lparr>armed := True\<rparr>)"
    using s2(2) by (rule spin_set)
  show ?thesis
    using Suc s2
    by (simp add: SdSpi_receive_n_def first loop last read_SPDR_def clear_flag_def
        filled_last [of 0 n1, simplified] replicate_append_same)
qed

text \<open>
  Whatever the timing, the loop assigns to the offsets \<open>i\<close>, ..., \<open>n - 1\<close> and to no
  other, and the polling loop after it ends.
\<close>

lemma loop_body_live:
  "spif (tick c (write_SPDR v s)) \<or> 0 < busy (tick c (write_SPDR v s))"
  using byte_cycles_ge [of "(clear_flag s)\<lparr>dr_writes := dr_writes s @ [v]\<rparr>"]
  by (auto simp add: write_SPDR_def tick_def complete_def Let_def)

lemma receive_loop_live:
  "spif s \<or> 0 < busy s \<Longrightarrow>
   spif (snd (receive_loop c i n buf s)) \<or> 0 < busy (snd (receive_loop c i n buf s))"
proof (induction c i n buf s rule: receive_loop.induct)
  case (1 c i n buf s)
  show ?case
  proof (cases "i < n")
    case True
    let ?s3 = "tick c (write_SPDR 0xFF (snd (read_SPDR s)))"
    have step: "receive_loop c i n buf s = receive_loop c (Suc i) n (store buf i (rx s)) ?s3"
      using True by (simp add: receive_loop.simps [of c i n] read_SPDR_def)
    have "spif (snd (receive_loop c (Suc i) n (store buf i (rx s)) ?s3)) \<or>
        0 < busy (snd (receive_loop c (Suc i) n (store buf i (rx s)) ?s3))"
      using True loop_body_live [of c "0xFF" "snd (read_SPDR s)"]
      by (intro "1.IH" [of "(rx s, clear_flag s)" "rx s" "clear_flag s"])
        (simp_all add: read_SPDR_def)
    then show ?thesis
      by (simp add: step)
  next
    case False
    with "1.prems" show ?thesis
      by (simp add: receive_loop_done)
  qed
qed

lemma receive_loop_stores:
  "stored (fst (receive_loop c i n buf s)) = stored buf @ [i..<n] \<and>
   (\<forall>j. j < i \<or> n \<le> j \<longrightarrow> cells (fst (receive_loop c i n buf s)) j = cells buf j)"
proof (induction c i n buf s rule: receive_loop.induct)
  case (1 c i n buf s)
  show ?case
  proof (cases "i < n")
    case True
    let ?s3 = "tick c (write_SPDR 0xFF (snd (read_SPDR s)))"
    have step: "receive_loop c i n buf s = receive_loop c (Suc i) n (store buf i (rx s)) ?s3"
      using True by (simp add: receive_loop.simps [of c i n] read_SPDR_def)
    have "stored (fst (receive_loop c (Suc i) n (store buf i (rx s)) ?s3)) =
        stored (store buf i (rx s)) @ [Suc i..<n] \<and>
      (\<forall>j. j < Suc i \<or> n \<le> j \<longrightarrow>
        cells (fst (receive_loop c (Suc i) n (store buf i (rx s)) ?s3)) j =
        cells (store buf i (rx s)) j)"
      using True
      by (intro "1.IH" [of "(rx s, clear_flag s)" "rx s" "clear_flag s"])
        (simp_all add: read_SPDR_def)
    then show ?thesis
      using True by (auto simp add: step store_def upt_conv_Cons)
  next
    case False
    then show ?thesis
      by (simp add: receive_loop_done)
  qed
qed

lemma SdSpi_receive_n_returns:
  "\<exists>b s'. SdSpi_receive_n c buf n s = Some (0, b, s') \<and>
     stored b = stored buf @ [0..<n] \<and> (\<forall>j\<ge>n. cells b j = cells buf j)"
proof (cases n)
  case 0
  then show ?thesis
    by (simp add: SdSpi_receive_n_def)
next
  case (Suc n1)
  have w: "spif (write_SPDR 0xFF s) \<or> 0 < busy (write_SPDR 0xFF s)"
    using byte_cycles_ge [of "(clear_flag s)\<lparr>dr_writes := dr_writes s @ [0xFF]\<rparr>"]
    by (auto simp add: write_SPDR_def Let_def)
  then obtain s1 where s1: "spin (write_SPDR 0xFF s) = Some s1" and f1: "spif s1"
    by (auto simp add: spin_live complete_def)
  obtain buf1 s2 where loop: "receive_loop c 0 n1 buf s1 = (buf1, s2)"
    by (cases "receive_loop c 0 n1 buf s1")
  have "spif s2 \<or> 0 < busy s2"
    using receive_loop_live [of s1 c 0 n1 buf] f1 by (simp add: loop)
  then obtain s3 where s3: "spin s2 = Some s3"
    by (auto simp add: spin_live)
  have b1: "stored buf1 = stored buf @ [0..<n1]" "\<forall>j\<ge>n1. cells buf1 j = cells buf j"
    using receive_loop_stores [of c 0 n1 buf s1] by (simp_all add: loop)
  show ?thesis
    using Suc b1
    by (simp add: SdSpi_receive_n_def s1 loop s3 read_SPDR_def store_def)
qed

lemma lib_receive_n_zero: "fst (SdSpiLib_receive_n buf n st) = 0"
  by (simp add: SdSpiLib_receive_n_def split: prod.split)

lemma soft_receive_n_zero: "fst (SdSpiSoft_receive_n r buf n m) = 0"
  by (simp add: SdSpiSoft_receive_n_def split: prod.split)

text \<open>
  Facts for running the functions on concrete inputs: an iteration of the pipelined loop
  without its local variables, and the state after \<open>begin(); init(d)\<close> from reset.
\<close>

lemma receive_loop_step:
  "i < n \<Longrightarrow>
   receive_loop c i n buf s =
     receive_loop c (Suc i) n (store buf i (rx s)) (tick c (write_SPDR 0xFF (clear_flag s)))"
  by (subst receive_loop.simps) (simp add: read_SPDR_def)

lemma init_state:
  "SdSpi_init d (SdSpi_begin (reset_state m)) =
     \<lparr>PORTB = 4, DDRB = 44, SPCR = push_bit SPE 1 OR push_bit MSTR 1 OR drop_bit 1 (init_rate d),
      SPSR = (if init_rate d AND 1 \<noteq> 0 then 0 else push_bit SPI2X 1), spif = False,
      armed = False, rx = 0, busy = 0, miso = m, xfers = 0, mosi = [], dr_writes = []\<rparr>"
  by (simp add: SdSpi_init_def SdSpi_begin_def reset_state_def Let_def)

lemmas run_rules =
  init_state init_rate_table SdSpi_receive_n_def SdSpi_receive_def receive_each.simps
  receive_loop_step receive_loop_done write_SPDR_def read_SPDR_def clear_flag_def tick_def
  complete_def spin_live byte_cycles_def sck_divisor_def SPE_def MSTR_def SPI2X_def store_def
  buffer_bytes_def zero_buffer_def ramp_def upt_conv_Cons Let_def

text \<open>
  When no byte takes more CPU cycles than the \<open>c\<close> cycles of one iteration of the
  pipelined loop, \<open>receive(buf, n)\<close> from rest stores what \<open>n\<close> calls of \<open>receive()\<close>
  store, the bytes of the next \<open>n\<close> transfers, and sends \<open>0xFF\<close> \<open>n\<close> times.
\<close>

lemma pipelined_receive_in_time:
  assumes "idle s" and "byte_cycles s \<le> c"
  shows "map_option (fst \<circ> snd) (SdSpi_receive_n c buf n s) =
      map_option fst (receive_each 0 n buf s) \<and>
    map_option fst (receive_each 0 n buf s) = Some (filled (miso s) (xfers s) 0 n buf) \<and>
    (\<forall>j<n. cells (filled (miso s) (xfers s) 0 n buf) j = miso s (xfers s + j)) \<and>
    map_option (mosi \<circ> snd \<circ> snd) (SdSpi_receive_n c buf n s) = Some (mosi s @ replicate n 0xFF)"
proof -
  obtain s1 where p: "SdSpi_receive_n c buf n s = Some (0, filled (miso s) (xfers s) 0 n buf, s1)"
      "mosi s1 = mosi s @ replicate n 0xFF"
    using SdSpi_receive_n_fast [OF assms] by blast
  obtain s2 where q: "receive_each 0 n buf s = Some (filled (miso s) (xfers s) 0 n buf, s2)"
    using receive_each_idle [OF assms(1), of "xfers s" 0 n buf] by auto
  show ?thesis
    by (simp add: p q cells_filled)
qed

text \<open>
  After \<open>init(2)\<close> a byte takes 16 cycles: with \<open>c = 17\<close> three bytes arrive as sent,
  and so they do with \<open>c = 16\<close>, but with \<open>c = 15\<close> the second read of SPDR is early.
\<close>

lemma pipelined_receive_in_time_example:
  "idle (SdSpi_init 2 (SdSpi_begin (reset_state ramp))) \<and>
   byte_cycles (SdSpi_init 2 (SdSpi_begin (reset_state ramp))) \<le> 17 \<and>
   map_option (buffer_bytes 3 \<circ> fst \<circ> snd)
     (SdSpi_receive_n 17 zero_buffer 3 (SdSpi_init 2 (SdSpi_begin (reset_state ramp))))
     = Some [0, 1, 2] \<and>
   map_option (buffer_bytes 3 \<circ> fst)
     (receive_each 0 3 zero_buffer (SdSpi_init 2 (SdSpi_begin (reset_state ramp))))
     = Some [0, 1, 2]"
proof -
  let ?s = "SdSpi_init 2 (SdSpi_begin (reset_state ramp))"
  have i: "idle ?s"
    by (simp add: idle_def init_fields begin_fields reset_state_def)
  have c: "byte_cycles ?s \<le> 17"
    by (simp add: byte_cycles_def sck_divisor_init)
  have x: "xfers ?s = 0" "miso ?s = ramp"
    by (simp_all add: init_fields begin_fields reset_state_def)
  have b: "buffer_bytes 3 (filled ramp 0 0 3 zero_buffer) = [0, 1, 2]"
    by (simp add: buffer_bytes_def cells_filled ramp_def upt_conv_Cons numeral_3_eq_3)
  from pipelined_receive_in_time [OF i c, of zero_buffer 3]
  have "map_option fst (receive_each 0 3 zero_buffer ?s) = Some (filled ramp 0 0 3 zero_buffer)"
    and "map_option (fst \<circ> snd) (SdSpi_receive_n 17 zero_buffer 3 ?s) =
      Some (filled ramp 0 0 3 zero_buffer)"
    by (simp_all add: x)
  then have "map_option (buffer_bytes 3 \<circ> fst) (receive_each 0 3 zero_buffer ?s) = Some [0, 1, 2]"
    and "map_option (buffer_bytes 3 \<circ> fst \<circ> snd) (SdSpi_receive_n 17 zero_buffer 3 ?s) = Some [0, 1, 2]"
    using b by (auto simp add: map_option_case split: option.splits)
  with i c show ?thesis
    by simp
qed

lemma pipelined_receive_divisor_2:
  "map_option (buffer_bytes 3 \<circ> fst \<circ> snd)
     (SdSpi_receive_n 16 zero_buffer 3 (SdSpi_init 2 (SdSpi_begin (reset_state ramp))))
     = Some [0, 1, 2] \<and>
   map_option (buffer_bytes 3 \<circ> fst \<circ> snd)
     (SdSpi_receive_n 15 zero_buffer 3 (SdSpi_init 2 (SdSpi_begin (reset_state ramp))))
     = Some [0, 0, 1]"
  by (simp add: run_rules)

text \<open>
  After \<open>init(4)\<close> a byte takes 32 cycles. With 17 cycles for an iteration,
  \<open>receive(buf, 4)\<close> stores 0, 0, 1, 1 and returns while its third byte is still being
  shifted, 15 cycles from its end.
\<close>

lemma pipelined_receive_divisor_4:
  "map_option (buffer_bytes 4 \<circ> fst \<circ> snd)
     (SdSpi_receive_n 17 zero_buffer 4 (SdSpi_init 4 (SdSpi_begin (reset_state ramp))))
     = Some [0, 0, 1, 1] \<and>
   map_option (busy \<circ> snd \<circ> snd)
     (SdSpi_receive_n 17 zero_buffer 4 (SdSpi_init 4 (SdSpi_begin (reset_state ramp))))
     = Some 15"
  by (simp add: run_rules)

text \<open>
  C1. \<open>receive(buf, n)\<close> has to store the same \<open>n\<close> bytes as \<open>n\<close> calls of \<open>receive()\<close>,
  but its loop reads and writes SPDR after a fixed delay, without a look at SPIF, and
  \<open>init\<close> accepts every divisor. After \<open>init(128)\<close> a byte takes 1024 CPU cycles; with
  17 cycles for an iteration of the loop, \<open>receive(buf, 3)\<close> reads SPDR in its second
  iteration before the second byte has arrived, and its write of SPDR collides. With a
  slave that sends 0, 1, 2 it stores 0, 0, 1, makes two transfers instead of three (of
  its three writes to SPDR one is lost) and returns zero, where three calls of
  \<open>receive()\<close> store 0, 1, 2.
\<close>

theorem pipelined_receive_stale_byte:
  "map_option (buffer_bytes 3 \<circ> fst \<circ> snd)
     (SdSpi_receive_n 17 zero_buffer 3 (SdSpi_init 128 (SdSpi_begin (reset_state ramp))))
     = Some [0, 0, 1] \<and>
   map_option (buffer_bytes 3 \<circ> fst)
     (receive_each 0 3 zero_buffer (SdSpi_init 128 (SdSpi_begin (reset_state ramp))))
     = Some [0, 1, 2] \<and>
   map_option (buffer_bytes 3 \<circ> fst \<circ> snd)
     (SdSpi_receive_n 17 zero_buffer 3 (SdSpi_init 128 (SdSpi_begin (reset_state ramp))))
     \<noteq> map_option (buffer_bytes 3 \<circ> fst)
         (receive_each 0 3 zero_buffer (SdSpi_init 128 (SdSpi_begin (reset_state ramp)))) \<and>
   map_option fst
     (SdSpi_receive_n 17 zero_buffer 3 (SdSpi_init 128 (SdSpi_begin (reset_state ramp))))
     = Some 0 \<and>
   map_option (mosi \<circ> snd \<circ> snd)
     (SdSpi_receive_n 17 zero_buffer 3 (SdSpi_init 128 (SdSpi_begin (reset_state ramp))))
     = Some [0xFF, 0xFF] \<and>
   map_option (dr_writes \<circ> snd \<circ> snd)
     (SdSpi_receive_n 17 zero_buffer 3 (SdSpi_init 128 (SdSpi_begin (reset_state ramp))))
     = Some [0xFF, 0xFF, 0xFF] \<and>
   map_option (mosi \<circ> snd)
     (receive_each 0 3 zero_buffer (SdSpi_init 128 (SdSpi_begin (reset_state ramp))))
     = Some [0xFF, 0xFF, 0xFF]"
  by (simp add: run_rules)

text \<open>
  C7. \<open>receive(buf, n)\<close> of \<open>SdSpi\<close> returns, and returns zero, from every state of the
  peripheral and for every \<open>n\<close>; the loops of \<open>SdSpiLib\<close> and \<open>SdSpiSoft\<close> return zero.
\<close>

theorem receive_n_returns_zero:
  "map_option fst (SdSpi_receive_n c buf n s) = Some 0 \<and>
   fst (SdSpiLib_receive_n buf n st) = 0 \<and>
   fst (SdSpiSoft_receive_n m_spi_receive buf n m) = 0"
proof -
  obtain b s' where "SdSpi_receive_n c buf n s = Some (0, b, s')"
    using SdSpi_receive_n_returns [of c buf n s] by blast
  then show ?thesis
    by (simp add: lib_receive_n_zero soft_receive_n_zero)
qed

text \<open>C7 for three bytes at the slowest clock.\<close>

theorem receive_n_returns_zero_witness:
  "map_option fst (SdSpi_receive_n 17 zero_buffer 3 (SdSpi_init 128 (reset_state ramp))) = Some 0 \<and>
   fst (SdSpiLib_receive_n zero_buffer 3 (lib_start ramp)) = 0 \<and>
   fst (SdSpiSoft_receive_n (SPI_transfer 0xFF) zero_buffer 3 (lib_start ramp)) = 0"
  using receive_n_returns_zero [of 17 zero_buffer 3 "SdSpi_init 128 (reset_state ramp)"
      "lib_start ramp" "SPI_transfer 0xFF" "lib_start ramp"]
  by simp

text \<open>
  C10. For every \<open>n \<ge> 1\<close>, \<open>SdSpi::receive(buf, n)\<close> assigns to \<open>buf[0]\<close>, ...,
  \<open>buf[n - 1]\<close>, once each and in this order, and leaves every cell from offset \<open>n\<close> on
  as it was: the loop assigns to the offsets below \<open>n - 1\<close> and the store after it to
  \<open>n - 1\<close>.
\<close>

theorem receive_n_store_indices:
  assumes "1 \<le> n"
  shows "map_option (stored \<circ> fst \<circ> snd) (SdSpi_receive_n c buf n s) = Some (stored buf @ [0..<n]) \<and>
    (\<exists>b s'. SdSpi_receive_n c buf n s = Some (0, b, s') \<and> (\<forall>j\<ge>n. cells b j = cells buf j)) \<and>
    stored (fst (receive_loop c 0 (n - 1) buf s1)) = stored buf @ [0..<n - 1]"
proof -
  obtain b s' where r: "SdSpi_receive_n c buf n s = Some (0, b, s')"
      "stored b = stored buf @ [0..<n]" "\<forall>j\<ge>n. cells b j = cells buf j"
    using SdSpi_receive_n_returns [of c buf n s] by blast
  have "stored (fst (receive_loop c 0 (n - 1) buf s1)) = stored buf @ [0..<n - 1]"
    using receive_loop_stores [of c 0 "n - 1" buf s1] by simp
  with r show ?thesis
    by simp
qed

text \<open>C10 for \<open>n = 3\<close> at the slowest clock.\<close>

theorem receive_n_store_indices_witness:
  "(1 :: nat) \<le> 3 \<and>
   map_option (stored \<circ> fst \<circ> snd)
     (SdSpi_receive_n 17 zero_buffer 3 (SdSpi_init 128 (reset_state ramp))) = Some [0, 1, 2]"
proof -
  have n: "(1 :: nat) \<le> 3"
    by simp
  have u: "stored zero_buffer @ [0..<3] = [0, 1, 2]"
    by code_simp
  from receive_n_store_indices [OF n, of 17 zero_buffer "SdSpi_init 128 (reset_state ramp)"
      "reset_state ramp"]
  have "map_option (stored \<circ> fst \<circ> snd)
     (SdSpi_receive_n 17 zero_buffer 3 (SdSpi_init 128 (reset_state ramp))) =
     Some (stored zero_buffer @ [0..<3])"
    by (rule conjunct1)
  with n show ?thesis
    unfolding u by (rule conjI)
qed

subsection \<open>Sending \<open>n\<close> bytes\<close>

text \<open>
  An iteration of the \<open>while (1)\<close> loop, entered while a byte is being shifted: it waits
  for the byte, then starts the next one.
\<close>

lemma send_loop_step:
  "\<not> spif s \<Longrightarrow> 0 < busy s \<Longrightarrow>
   send_loop buf n b i s =
     (if i = n then Some (write_SPDR b ((complete s)\<lparr>armed := True\<rparr>))
      else send_loop buf n (buf i) (Suc i) (write_SPDR b ((complete s)\<lparr>armed := True\<rparr>)))"
  by (subst send_loop.simps) (simp add: spin_busy)

lemma send_loop_run:
  "\<not> spif s \<Longrightarrow> 0 < busy s \<Longrightarrow> i \<le> n \<Longrightarrow>
   \<exists>s'. send_loop buf n b i s = Some s' \<and> \<not> spif s' \<and> 0 < busy s' \<and>
     mosi s' = mosi s @ b # map buf [i..<n]"
proof (induction "n - i" arbitrary: i b s)
  case 0
  let ?s2 = "write_SPDR b ((complete s)\<lparr>armed := True\<rparr>)"
  have "\<not> spif ?s2 \<and> 0 < busy ?s2 \<and> mosi ?s2 = mosi s @ [b]"
    using byte_cycles_ge [of s]
    by (simp add: write_SPDR_def clear_flag_def complete_def Let_def)
  moreover have "i = n"
    using 0 by simp
  ultimately show ?case
    using "0.prems" by (simp add: send_loop_step)
next
  case (Suc k)
  let ?s2 = "write_SPDR b ((complete s)\<lparr>armed := True\<rparr>)"
  from Suc.hyps(2) have lt: "i < n" and k: "k = n - Suc i"
    by simp_all
  have s2: "\<not> spif ?s2" "0 < busy ?s2" "mosi ?s2 = mosi s @ [b]"
    using byte_cycles_ge [of s]
    by (simp_all add: write_SPDR_def clear_flag_def complete_def Let_def)
  have "\<exists>s'. send_loop buf n (buf i) (Suc i) ?s2 = Some s' \<and> \<not> spif s' \<and> 0 < busy s' \<and>
     mosi s' = mosi ?s2 @ buf i # map buf [Suc i..<n]"
    using s2 lt by (intro Suc.hyps(1) [OF k]) simp_all
  then show ?case
    using lt Suc.prems by (simp add: send_loop_step s2(3) upt_conv_Cons)
qed

lemma SdSpi_send_n_idle:
  assumes "idle s"
  shows "\<exists>s'. SdSpi_send_n buf n s = Some s' \<and> idle s' \<and> mosi s' = mosi s @ map buf [0..<n]"
proof -
  let ?s1 = "write_SPDR (buf 0) s"
  have s1: "\<not> spif ?s1" "0 < busy ?s1" "mosi ?s1 = mosi s @ [buf 0]"
    using assms byte_cycles_ge [of s]
    by (auto simp add: idle_def write_SPDR_def clear_flag_def Let_def)
  have fin: "\<exists>s'. spin t = Some s' \<and> idle s' \<and> mosi s' = mosi t" if "\<not> spif t" "0 < busy t" for t
    using that by (simp add: spin_busy idle_def complete_def)
  consider "n = 0" | "n = 1" | "1 < n"
    by linarith
  then show ?thesis
  proof cases
    case 1
    then show ?thesis
      using assms by (simp add: SdSpi_send_n_def)
  next
    case 2
    then show ?thesis
      using fin [OF s1(1,2)] by (auto simp add: SdSpi_send_n_def s1(3))
  next
    case 3
    then have "\<exists>s'. send_loop buf n (buf (Suc 0)) 2 ?s1 = Some s' \<and> \<not> spif s' \<and> 0 < busy s' \<and>
        mosi s' = mosi ?s1 @ buf (Suc 0) # map buf [2..<n]"
      using s1 by (intro send_loop_run) simp_all
    then obtain s2 where s2: "send_loop buf n (buf (Suc 0)) 2 ?s1 = Some s2" "\<not> spif s2" "0 < busy s2"
        "mosi s2 = mosi s @ buf 0 # buf (Suc 0) # map buf [2..<n]"
      by (auto simp add: s1(3))
    have "[0..<n] = 0 # 1 # [2..<n]"
      using 3 by (simp add: upt_conv_Cons numeral_2_eq_2)
    then show ?thesis
      using 3 fin [OF s2(2,3)] by (auto simp add: SdSpi_send_n_def Let_def s2(1,4))
  qed
qed

lemma send_each_idle:
  "idle s \<Longrightarrow>
   \<exists>s'. send_each buf i n s = Some s' \<and> idle s' \<and> mosi s' = mosi s @ map buf [i..<n]"
proof (induction buf i n s rule: send_each.induct)
  case (1 buf i n s)
  show ?case
  proof (cases "i < n")
    case True
    let ?s1 = "s\<lparr>spif := True, armed := True, rx := miso s (xfers s), busy := 0,
        xfers := Suc (xfers s), mosi := mosi s @ [buf i], dr_writes := dr_writes s @ [buf i]\<rparr>"
    have one: "SdSpi_send (buf i) s = Some ?s1"
      using "1.prems" by (rule SdSpi_send_idle)
    have "\<exists>s'. send_each buf (Suc i) n ?s1 = Some s' \<and> idle s' \<and>
        mosi s' = mosi ?s1 @ map buf [Suc i..<n]"
      using True one by (intro "1.IH") (simp_all add: idle_def)
    then show ?thesis
      using True by (simp add: send_each.simps [of buf i n s] one upt_conv_Cons)
  next
    case False
    with "1.prems" show ?thesis
      by (simp add: send_each.simps [of buf i n s])
  qed
qed

text \<open>
  C2. From rest, for every \<open>n\<close> and every buffer, \<open>send(buf, n)\<close> returns and has put
  exactly \<open>buf[0]\<close>, ..., \<open>buf[n - 1]\<close> on MOSI, in this order, as \<open>n\<close> calls of
  \<open>send(buf[i])\<close> one after the other do.
\<close>

theorem pipelined_send_equivalence:
  assumes "idle s"
  shows "map_option mosi (SdSpi_send_n buf n s) = Some (mosi s @ map buf [0..<n]) \<and>
    map_option mosi (send_each buf 0 n s) = map_option mosi (SdSpi_send_n buf n s)"
proof -
  obtain s1 where p: "SdSpi_send_n buf n s = Some s1" "mosi s1 = mosi s @ map buf [0..<n]"
    using SdSpi_send_n_idle [OF assms, of buf n] by blast
  obtain s2 where q: "send_each buf 0 n s = Some s2" "mosi s2 = mosi s @ map buf [0..<n]"
    using send_each_idle [OF assms, of buf 0 n] by blast
  show ?thesis
    by (simp add: p q)
qed

text \<open>C2 for the six bytes of CMD0 at the slowest clock.\<close>

theorem pipelined_send_equivalence_witness:
  "idle (SdSpi_init 128 (SdSpi_begin (reset_state ones))) \<and>
   map_option mosi (SdSpi_send_n ((!) [0x40, 0, 0, 0, 0, 0x95]) 6
     (SdSpi_init 128 (SdSpi_begin (reset_state ones)))) = Some [0x40, 0, 0, 0, 0, 0x95] \<and>
   map_option mosi (send_each ((!) [0x40, 0, 0, 0, 0, 0x95]) 0 6
     (SdSpi_init 128 (SdSpi_begin (reset_state ones)))) = Some [0x40, 0, 0, 0, 0, 0x95]"
proof -
  let ?s = "SdSpi_init 128 (SdSpi_begin (reset_state ones))"
  have i: "idle ?s"
    by (simp add: idle_def init_fields begin_fields reset_state_def)
  have m: "mosi ?s = []"
    by (simp add: init_fields begin_fields reset_state_def)
  have b: "map ((!) [0x40, 0, 0, 0, 0, 0x95 :: u8]) [0..<6] = [0x40, 0, 0, 0, 0, 0x95]"
    by code_simp
  show ?thesis
    using pipelined_send_equivalence [OF i, of "(!) [0x40, 0, 0, 0, 0, 0x95]" 6] i
    by (simp add: m b)
qed

subsection \<open>Length zero\<close>

text \<open>
  C6. With \<open>n = 0\<close>, \<open>send(buf, 0)\<close> and \<open>receive(buf, 0)\<close> of \<open>SdSpi\<close> return with the
  peripheral and the buffer as they were, so without a write to SPDR, and \<open>receive\<close>
  returns zero; the loops of \<open>SdSpiLib\<close> make no call of \<open>transfer\<close>.
\<close>

theorem zero_length_no_transfer:
  "SdSpi_send_n buf 0 s = Some s \<and>
   SdSpi_receive_n c b 0 s = Some (0, b, s) \<and>
   SdSpiLib_receive_n b 0 st = (0, b, st) \<and>
   SdSpiLib_send_n buf 0 st = st"
  by (simp add: SdSpi_send_n_def SdSpi_receive_n_def SdSpiLib_receive_n_def SdSpiLib_send_n_def
      lib_receive_loop.simps [of 0 0] lib_send_loop.simps [of buf 0 0])

text \<open>C6 from the reset state: no value has been written to SPDR, no call made.\<close>

theorem zero_length_no_transfer_witness:
  "map_option dr_writes (SdSpi_send_n ramp 0 (reset_state ones)) = Some [] \<and>
   map_option (dr_writes \<circ> snd \<circ> snd) (SdSpi_receive_n 17 zero_buffer 0 (reset_state ones)) = Some [] \<and>
   calls (snd (snd (SdSpiLib_receive_n zero_buffer 0 (lib_start ones)))) = [] \<and>
   calls (SdSpiLib_send_n ramp 0 (lib_start ones)) = []"
  using zero_length_no_transfer [of ramp "reset_state ones" 17 zero_buffer "lib_start ones"]
  by (simp add: reset_state_def lib_start_def)

end
